theory Spec2Isabelle
  imports
    Main
    "HOL-Library.Word"
    "HOL-Library.AList"
    "HOL-Library.Multiset"
    "HOL-Library.Char_ord"
    "HOL-Library.List_Lexorder"
begin

section \<open>Recording rules of vmalert (app/vmalert/recording.go)\<close>

text \<open>
  A shallow embedding of \<^verbatim>\<open>RecordingRule\<close> and its methods. Go strings are byte
  sequences, compared byte-wise and lexicographically by \<^verbatim>\<open><\<close>: they are
  \<^typ>\<open>string\<close> with the order of \<^theory_text>\<open>Char_ord\<close> and \<^theory_text>\<open>List_Lexorder\<close>.
  \<^verbatim>\<open>int64\<close> and \<^verbatim>\<open>uint64\<close> are 64-bit words. A \<^verbatim>\<open>float64\<close> is only ever copied
  by this file, never computed with, so it is kept as its 64-bit pattern.
\<close>

subsection \<open>Data\<close>

type_synonym int64 = "64 word"
type_synonym uint64 = "64 word"
type_synonym float64 = "64 word"

text \<open>
  \<^verbatim>\<open>datasource.Label\<close> and \<^verbatim>\<open>prompbmarshal.Label\<close> are both a pair of strings
  \<^verbatim>\<open>Name\<close>, \<^verbatim>\<open>Value\<close>; one record stands for both.
\<close>

record Label =
  Name :: string
  Value :: string

text \<open>
  A \<^verbatim>\<open>time.Time\<close>, as seconds and nanoseconds since the Unix epoch. \<^verbatim>\<open>time.Unix\<close>
  is only called with \<^verbatim>\<open>nsec = 0\<close>, where it does not normalise anything.
\<close>

record Time =
  sec :: int64
  nsec :: int64

definition time_Unix :: "int64 \<Rightarrow> int64 \<Rightarrow> Time" where
  "time_Unix s n = \<lparr>sec = s, nsec = n\<rparr>"

text \<open>\<^verbatim>\<open>datasource.Metric\<close>: the fields this file reads.\<close>

record Metric =
  Labels :: "Label list"
  Timestamp :: int64
  Value :: float64

text \<open>
  \<^verbatim>\<open>prompbmarshal.TimeSeries\<close>. Its declaration is not part of the file; the
  specification describes it as a label set plus (value, timestamp) samples.
\<close>

record Sample =
  Value :: float64
  Timestamp :: Time

record TimeSeries =
  Labels :: "Label list"
  Samples :: "Sample list"

text \<open>
  A Go \<^verbatim>\<open>map[string]string\<close> is an association list whose keys are pairwise
  distinct. \<^verbatim>\<open>labels[k] = v\<close> is \<^const>\<open>AList.update\<close>, which overwrites the entry of
  an existing key and adds a missing one. The order in which \<^verbatim>\<open>range\<close> visits a map
  is unspecified in Go: every function that ranges over a map takes that order as a
  parameter \<open>ord\<close>, and the theorems hold for every order.
\<close>

type_synonym gomap = "(string \<times> string) list"
type_synonym maporder = "gomap \<Rightarrow> gomap"

definition is_order :: "maporder \<Rightarrow> bool" where
  "is_order ord = (\<forall>m. mset (ord m) = mset m)"

subsection \<open>stringifyLabels\<close>

text \<open>
  \<^verbatim>\<open>sort.Slice(labels, lt)\<close> belongs to Go's library, not to this package. It sorts
  the slice in place and is documented as not stable: which algorithm runs depends on
  the length of the slice and on the version of Go, and labels of equal name may come
  out in any order. Every function that sorts therefore takes the library's function
  as a parameter \<open>sort_Slice\<close>. What the theorems assume of it is its contract for
  the comparison by name, \<open>sorts_by_name\<close>: the result is a permutation of the
  slice in ascending order of name.
\<close>

type_synonym 'a sorter = "('a \<Rightarrow> 'a \<Rightarrow> bool) \<Rightarrow> 'a list \<Rightarrow> 'a list"

definition sorts_by_name :: "Label sorter \<Rightarrow> bool" where
  "sorts_by_name srt =
     (\<forall>xs. mset (srt (\<lambda>a b. Label.Name a < Label.Name b) xs) = mset xs
         \<and> sorted (map Label.Name (srt (\<lambda>a b. Label.Name a < Label.Name b) xs)))"

text \<open>
  Insertion sort, the algorithm Go runs on a short slice, is one function with this
  contract (lemma \<open>sorts_by_name_insertion_sort\<close>); the concrete examples are
  computed with it.
\<close>

fun insert_less :: "('a \<Rightarrow> 'a \<Rightarrow> bool) \<Rightarrow> 'a \<Rightarrow> 'a list \<Rightarrow> 'a list" where
  "insert_less lt x [] = [x]"
| "insert_less lt x (y # ys) =
     (if lt y x then y # insert_less lt x ys else x # y # ys)"

definition insertion_sort :: "'a sorter" where
  "insertion_sort lt xs = foldr (insert_less lt) xs []"

text \<open>
  The loop \<^verbatim>\<open>for i, l := range labels\<close> writing into the \<^verbatim>\<open>strings.Builder\<close>
  \<open>b\<close>; \<open>n\<close> is \<^verbatim>\<open>len(labels)\<close> and \<open>i\<close> the index of the head of the remaining
  list. \<^verbatim>\<open>len(labels)-1\<close> is computed on Go's signed \<^verbatim>\<open>int\<close>.
\<close>

fun writeLabels :: "nat \<Rightarrow> nat \<Rightarrow> Label list \<Rightarrow> string \<Rightarrow> string" where
  "writeLabels n i [] b = b"
| "writeLabels n i (l # ls) b =
     writeLabels n (Suc i) ls
       (b @ Label.Name l @ ''='' @ Label.Value l
          @ (if int i \<noteq> int n - 1 then '','' else ''''))"

text \<open>
  \<^verbatim>\<open>labels := ts.Labels\<close> copies the slice header only, so \<^verbatim>\<open>sort.Slice\<close>
  reorders the array that the caller's \<^verbatim>\<open>ts.Labels\<close> points to. The function
  therefore returns the key together with the caller's time series as the call
  leaves it.
\<close>

definition stringifyLabels :: "Label sorter \<Rightarrow> TimeSeries \<Rightarrow> string \<times> TimeSeries" where
  "stringifyLabels sort_Slice ts =
     (let labels = TimeSeries.Labels ts;
          labels' = (if length labels > 1
                     then sort_Slice (\<lambda>a b. Label.Name a < Label.Name b) labels
                     else labels)
      in (writeLabels (length labels') 0 labels' [], ts\<lparr>TimeSeries.Labels := labels'\<rparr>))"

text \<open>
  The canonical key in the words of the specification: the labels sorted by name
  (stable, ascending, byte-wise), written as \<^verbatim>\<open>name=value\<close> and joined by single
  commas with no trailing separator.
\<close>

definition pair_text :: "Label \<Rightarrow> string" where
  "pair_text l = Label.Name l @ ''='' @ Label.Value l"

fun join_comma :: "string list \<Rightarrow> string" where
  "join_comma [] = []"
| "join_comma [s] = s"
| "join_comma (s # t # ss) = s @ '','' @ join_comma (t # ss)"

definition CanonicalKey_spec :: "Label list \<Rightarrow> string" where
  "CanonicalKey_spec labels = join_comma (map pair_text (sort_key Label.Name labels))"

text \<open>
  Labels whose name and value can be read back from the key: the name does not hold
  the character \<^verbatim>\<open>=\<close> and the value does not hold \<^verbatim>\<open>,\<close>.
\<close>

definition plain_label :: "Label \<Rightarrow> bool" where
  "plain_label l =
     (CHR ''='' \<notin> set (Label.Name l) \<and> CHR '','' \<notin> set (Label.Value l))"

definition plain_labels :: "Label list \<Rightarrow> bool" where
  "plain_labels ls = list_all plain_label ls"

subsection \<open>Errors\<close>

text \<open>
  Go \<^verbatim>\<open>error\<close> values. \<open>Opaque\<close> is an error made outside this file (what the
  querier returns), known by its message. \<open>errDuplicate\<close> is the package's sentinel
  for a result that holds two series with the same label set. The other three are the
  \<^verbatim>\<open>fmt.Errorf\<close> calls of this file with their arguments: \<open>QueryFailed\<close> is
  \<^verbatim>\<open>"failed to execute query %q: %w"\<close> on \<^verbatim>\<open>rr.Expr\<close> and the querier's error,
  \<open>DuplicateSeries\<close> is \<^verbatim>\<open>"original metric %v; resulting labels %q: %w"\<close> on the
  metric, the key and \<open>errDuplicate\<close>, and \<open>WrongType\<close> is
  \<^verbatim>\<open>"BUG: attempt to update recroding rule with wrong type %#v"\<close>, the rendering of
  its argument left out.
\<close>

datatype error =
    Opaque string
  | errDuplicate
  | QueryFailed string error
  | DuplicateSeries Metric string error
  | WrongType

text \<open>\<^verbatim>\<open>errors.Is\<close> on these values: \<^verbatim>\<open>%w\<close> wraps its argument.\<close>

fun errors_Is :: "error \<Rightarrow> error \<Rightarrow> bool" where
  "errors_Is (QueryFailed e w) target = (QueryFailed e w = target \<or> errors_Is w target)"
| "errors_Is (DuplicateSeries m k w) target =
     (DuplicateSeries m k w = target \<or> errors_Is w target)"
| "errors_Is e target = (e = target)"

text \<open>A run-time panic, here a nil pointer dereference.\<close>

datatype panic = NilDereference

subsection \<open>RecordingRule\<close>

text \<open>
  The fields of \<^verbatim>\<open>RecordingRule\<close>. \<^verbatim>\<open>datasource.Type\<close> is declared elsewhere and is
  a type parameter. The querier \<^verbatim>\<open>q\<close> is an object outside the rule whose answer
  can change between calls: \<open>Exec\<close> takes its behaviour at the time of the call as
  an argument. The mutex \<^verbatim>\<open>mu\<close> has no content in a sequential run; the section on
  concurrent readers gives it one.
\<close>

record 'ty RecordingRule =
  Type :: 'ty
  RuleID :: uint64
  Name :: string
  Expr :: string
  Labels :: gomap
  GroupID :: uint64
  lastExecTime :: Time
  lastExecError :: "error option"

text \<open>The callback of the gauge \<^verbatim>\<open>vmalert_recording_rules_error\<close>.\<close>

definition errors_gauge :: "'ty RecordingRule \<Rightarrow> nat" where
  "errors_gauge rr = (if lastExecError rr = None then 0 else 1)"

subsection \<open>toTimeSeries\<close>

text \<open>
  Modelled from the spec: \<^verbatim>\<open>newTimeSeries\<close> is defined in another file of the
  package. The specification describes a TimeSeries as a label set plus one
  (value, timestamp) sample, constructed fresh per evaluation: the result has one
  label for every entry of the map, in the order \<open>ord\<close> in which the map is ranged
  over, and the single sample made of the value and the time it is given.
\<close>

definition newTimeSeries :: "maporder \<Rightarrow> float64 \<Rightarrow> gomap \<Rightarrow> Time \<Rightarrow> TimeSeries" where
  "newTimeSeries ord v labels timestamp =
     \<lparr>TimeSeries.Labels = map (\<lambda>(k, v). \<lparr>Label.Name = k, Label.Value = v\<rparr>) (ord labels),
      Samples = [\<lparr>Sample.Value = v, Sample.Timestamp = timestamp\<rparr>]\<rparr>"

definition toTimeSeries :: "maporder \<Rightarrow> 'ty RecordingRule \<Rightarrow> Metric \<Rightarrow> Time \<Rightarrow> TimeSeries" where
  "toTimeSeries ord rr m timestamp =
     (let labels = fold (\<lambda>l. AList.update (Label.Name l) (Label.Value l)) (Metric.Labels m) [];
          labels = AList.update ''__name__'' (RecordingRule.Name rr) labels;
          labels = fold (\<lambda>(k, v). AList.update k v) (ord (RecordingRule.Labels rr)) labels
      in newTimeSeries ord (Metric.Value m) labels timestamp)"

text \<open>The map that \<open>toTimeSeries\<close> hands to \<^verbatim>\<open>newTimeSeries\<close>.\<close>

definition builtLabels :: "maporder \<Rightarrow> 'ty RecordingRule \<Rightarrow> Metric \<Rightarrow> gomap" where
  "builtLabels ord rr m =
     fold (\<lambda>(k, v). AList.update k v) (ord (RecordingRule.Labels rr))
       (AList.update ''__name__'' (RecordingRule.Name rr)
         (fold (\<lambda>l. AList.update (Label.Name l) (Label.Value l)) (Metric.Labels m) []))"

text \<open>
  Label sequences read as maps from names to values. In a time series the names are
  looked up as they stand; over the labels of a metric the loop
  \<^verbatim>\<open>labels[l.Name] = l.Value\<close> lets the last entry of a name win.
\<close>

definition labelsOf :: "TimeSeries \<Rightarrow> string \<rightharpoonup> string" where
  "labelsOf ts = map_of (map (\<lambda>l. (Label.Name l, Label.Value l)) (TimeSeries.Labels ts))"

definition metricLabels :: "Metric \<Rightarrow> string \<rightharpoonup> string" where
  "metricLabels m = map_of (rev (map (\<lambda>l. (Label.Name l, Label.Value l)) (Metric.Labels m)))"

subsection \<open>Exec\<close>

text \<open>
  The loop over \<^verbatim>\<open>qMetrics\<close>. \<^verbatim>\<open>duplicates\<close> is the set of keys seen so far and
  \<^verbatim>\<open>tss\<close> the series collected so far; the result is the pair that \<open>Exec\<close> returns
  and the rule as the loop leaves it. The series appended is the one
  \<open>stringifyLabels\<close> has sorted.
\<close>

fun Exec_loop ::
  "Label sorter \<Rightarrow> maporder \<Rightarrow> 'ty RecordingRule \<Rightarrow> Metric list \<Rightarrow> string set
    \<Rightarrow> TimeSeries list \<Rightarrow> (TimeSeries list \<times> error option) \<times> 'ty RecordingRule" where
  "Exec_loop sort_Slice ord rr [] duplicates tss = ((tss, None), rr)"
| "Exec_loop sort_Slice ord rr (r # rs) duplicates tss =
     (case stringifyLabels sort_Slice
             (toTimeSeries ord rr r (time_Unix (Metric.Timestamp r) 0)) of
        (key, ts) \<Rightarrow>
          if key \<in> duplicates
          then (([], Some (DuplicateSeries r key errDuplicate)),
                rr\<lparr>lastExecError := Some errDuplicate\<rparr>)
          else Exec_loop sort_Slice ord rr rs (insert key duplicates) (tss @ [ts]))"

text \<open>
  \<open>Exec sort_Slice ord q now rr ctx series\<close>: \<open>q ctx expr\<close> is what \<^verbatim>\<open>rr.q.Query(ctx, expr)\<close>
  returns at this call and \<open>now\<close> what \<^verbatim>\<open>time.Now()\<close> returns. The result is the
  returned pair (a nil slice is the empty list, a nil error is \<open>None\<close>), the rule
  after the call, and the queries the call has sent, in order.
\<close>

definition Exec ::
  "Label sorter \<Rightarrow> maporder \<Rightarrow> ('ctx \<Rightarrow> string \<Rightarrow> Metric list \<times> error option) \<Rightarrow> Time
    \<Rightarrow> 'ty RecordingRule \<Rightarrow> 'ctx \<Rightarrow> bool
    \<Rightarrow> (TimeSeries list \<times> error option) \<times> 'ty RecordingRule \<times> ('ctx \<times> string) list" where
  "Exec sort_Slice ord q now rr ctx series =
     (if \<not> series then (([], None), rr, [])
      else
        (case q ctx (Expr rr) of
           (qMetrics, err) \<Rightarrow>
             (let rr1 = rr\<lparr>lastExecTime := now, lastExecError := err\<rparr> in
              case err of
                Some e \<Rightarrow> (([], Some (QueryFailed (Expr rr) e)), rr1, [(ctx, Expr rr)])
              | None \<Rightarrow>
                  (case Exec_loop sort_Slice ord rr1 qMetrics {} [] of
                     (res, rr2) \<Rightarrow> (res, rr2, [(ctx, Expr rr)])))))"

text \<open>The key and the output series that \<open>Exec\<close> computes for one metric.\<close>

definition seriesKey ::
  "Label sorter \<Rightarrow> maporder \<Rightarrow> 'ty RecordingRule \<Rightarrow> Metric \<Rightarrow> string" where
  "seriesKey sort_Slice ord rr r =
     fst (stringifyLabels sort_Slice
            (toTimeSeries ord rr r (time_Unix (Metric.Timestamp r) 0)))"

definition outSeries ::
  "Label sorter \<Rightarrow> maporder \<Rightarrow> 'ty RecordingRule \<Rightarrow> Metric \<Rightarrow> TimeSeries" where
  "outSeries sort_Slice ord rr r =
     snd (stringifyLabels sort_Slice
            (toTimeSeries ord rr r (time_Unix (Metric.Timestamp r) 0)))"

subsection \<open>UpdateWith\<close>

text \<open>
  A value of the interface \<^verbatim>\<open>Rule\<close>: the nil interface, a \<^verbatim>\<open>*RecordingRule\<close>
  (which may be a nil pointer), or a value of another implementation, whose type is
  declared elsewhere and is a parameter.
\<close>

datatype ('ty, 'other) Rule =
    nil_Rule
  | RecordingRule_ptr "'ty RecordingRule option"
  | Other_Rule 'other

definition UpdateWith ::
  "'ty RecordingRule \<Rightarrow> ('ty, 'other) Rule
    \<Rightarrow> panic + (error option \<times> 'ty RecordingRule)" where
  "UpdateWith rr r =
     (case r of
        RecordingRule_ptr None \<Rightarrow> Inl NilDereference
      | RecordingRule_ptr (Some nr) \<Rightarrow>
          Inr (None, rr\<lparr>Expr := Expr nr, RecordingRule.Labels := RecordingRule.Labels nr\<rparr>)
      | _ \<Rightarrow> Inr (Some WrongType, rr))"

subsection \<open>RuleAPI\<close>

text \<open>\<^verbatim>\<open>fmt.Sprintf("%d", n)\<close> for an unsigned \<open>n\<close>: its decimal digits.\<close>

fun Sprintf_d :: "nat \<Rightarrow> string" where
  "Sprintf_d n =
     (if n < 10 then [char_of (48 + n)]
      else Sprintf_d (n div 10) @ [char_of (48 + n mod 10)])"

declare Sprintf_d.simps [simp del]

record APIRecordingRule =
  ID :: string
  GroupID :: string
  Name :: string
  Type :: string
  Expression :: string
  LastError :: string
  LastExec :: Time
  Labels :: gomap

text \<open>
  \<open>Type_String\<close> is the method \<^verbatim>\<open>String\<close> of \<^verbatim>\<open>datasource.Type\<close> and \<open>Error\<close> the
  method \<^verbatim>\<open>Error\<close> of error values; both are defined elsewhere. The function is
  written in the two steps of the source: the message of the last error first, the
  record after it.
\<close>

definition RuleAPI_lastErr :: "(error \<Rightarrow> string) \<Rightarrow> 'ty RecordingRule \<Rightarrow> string" where
  "RuleAPI_lastErr Error rr =
     (case lastExecError rr of None \<Rightarrow> [] | Some e \<Rightarrow> Error e)"

definition RuleAPI_record ::
  "('ty \<Rightarrow> string) \<Rightarrow> string \<Rightarrow> 'ty RecordingRule \<Rightarrow> APIRecordingRule" where
  "RuleAPI_record Type_String lastErr rr =
     \<lparr>ID = Sprintf_d (unat (RuleID rr)),
      GroupID = Sprintf_d (unat (RecordingRule.GroupID rr)),
      Name = RecordingRule.Name rr,
      Type = Type_String (RecordingRule.Type rr),
      Expression = Expr rr,
      LastError = lastErr,
      LastExec = lastExecTime rr,
      Labels = RecordingRule.Labels rr\<rparr>"

definition RuleAPI ::
  "('ty \<Rightarrow> string) \<Rightarrow> (error \<Rightarrow> string) \<Rightarrow> 'ty RecordingRule \<Rightarrow> APIRecordingRule" where
  "RuleAPI Type_String Error rr = RuleAPI_record Type_String (RuleAPI_lastErr Error rr) rr"

subsection \<open>Two goroutines on one rule\<close>

text \<open>
  One goroutine is in \<open>Exec\<close> with \<^verbatim>\<open>series = true\<close>, its query having returned
  \<^verbatim>\<open>(qMetrics, err)\<close>; another is in \<open>RuleAPI\<close>. A configuration holds the rule they
  share, whether \<^verbatim>\<open>rr.mu\<close> is locked, the next statement of each goroutine, and
  the local variable \<^verbatim>\<open>lastErr\<close> and the result of \<open>RuleAPI\<close>.
\<close>

record 'ty config =
  shared :: "'ty RecordingRule"
  mu :: bool
  exec_pc :: nat
  api_pc :: nat
  lastErr :: string
  returned :: "APIRecordingRule option"

record 'ty calls =
  library_sort :: "Label sorter"
  range_order :: maporder
  time_Now :: Time
  q_Metrics :: "Metric list"
  q_err :: "error option"
  String_of_Type :: "'ty \<Rightarrow> string"
  Error_of :: "error \<Rightarrow> string"

datatype goroutine = in_Exec | in_RuleAPI

text \<open>
  One statement of \<open>Exec\<close>, from \<^verbatim>\<open>rr.mu.Lock()\<close> on: the lock (which blocks while
  the mutex is held), the two assignments to the status fields, the rest of the body
  (which writes \<open>lastExecError\<close> once more when it finds a duplicate), and the
  deferred unlock. \<open>None\<close> says that the goroutine cannot move.
\<close>

definition Exec_step :: "'ty calls \<Rightarrow> 'ty config \<Rightarrow> 'ty config option" where
  "Exec_step p c =
     (if exec_pc c = 0 then
        (if mu c then None else Some (c\<lparr>mu := True, exec_pc := 1\<rparr>))
      else if exec_pc c = 1 then
        Some (c\<lparr>shared := (shared c)\<lparr>lastExecTime := time_Now p\<rparr>, exec_pc := 2\<rparr>)
      else if exec_pc c = 2 then
        Some (c\<lparr>shared := (shared c)\<lparr>lastExecError := q_err p\<rparr>, exec_pc := 3\<rparr>)
      else if exec_pc c = 3 then
        (case q_err p of
           Some e \<Rightarrow> Some (c\<lparr>exec_pc := 4\<rparr>)
         | None \<Rightarrow>
             Some (c\<lparr>shared := snd (Exec_loop (library_sort p) (range_order p) (shared c)
                                         (q_Metrics p) {} []),
                     exec_pc := 4\<rparr>))
      else if exec_pc c = 4 then Some (c\<lparr>mu := False, exec_pc := 5\<rparr>)
      else None)"

text \<open>
  The two statements of \<open>RuleAPI\<close>: the computation of \<^verbatim>\<open>lastErr\<close> and the
  \<^verbatim>\<open>return\<close> of the record. Neither locks \<^verbatim>\<open>rr.mu\<close>, so neither waits for it.
\<close>

definition RuleAPI_step :: "'ty calls \<Rightarrow> 'ty config \<Rightarrow> 'ty config option" where
  "RuleAPI_step p c =
     (if api_pc c = 0 then
        Some (c\<lparr>lastErr := RuleAPI_lastErr (Error_of p) (shared c), api_pc := 1\<rparr>)
      else if api_pc c = 1 then
        Some (c\<lparr>returned := Some (RuleAPI_record (String_of_Type p) (lastErr c) (shared c)),
                api_pc := 2\<rparr>)
      else None)"

fun run :: "'ty calls \<Rightarrow> goroutine list \<Rightarrow> 'ty config \<Rightarrow> 'ty config option" where
  "run p [] c = Some c"
| "run p (in_Exec # gs) c = (case Exec_step p c of None \<Rightarrow> None | Some c' \<Rightarrow> run p gs c')"
| "run p (in_RuleAPI # gs) c =
     (case RuleAPI_step p c of None \<Rightarrow> None | Some c' \<Rightarrow> run p gs c')"

definition start :: "'ty RecordingRule \<Rightarrow> 'ty config" where
  "start rr = \<lparr>shared = rr, mu = False, exec_pc = 0, api_pc = 0, lastErr = [], returned = None\<rparr>"

subsection \<open>The scenario of the specification\<close>

text \<open>
  The rule \<^verbatim>\<open>up_count\<close> with the static label \<^verbatim>\<open>env=prod\<close>, and metrics
  \<^verbatim>\<open>{job="a"}\<close> with value 1, \<^verbatim>\<open>{job="b"}\<close> with value 2, and
  \<^verbatim>\<open>{job="a", env="dev"}\<close>, whose \<^verbatim>\<open>env\<close> the static label overrides.
\<close>

definition up_count :: "string RecordingRule" where
  "up_count =
     \<lparr>RecordingRule.Type = ''prometheus'', RuleID = 7, RecordingRule.Name = ''up_count'',
      Expr = ''sum(up) by (job)'', RecordingRule.Labels = [(''env'', ''prod'')],
      RecordingRule.GroupID = 3, lastExecTime = time_Unix 0 0, lastExecError = None\<rparr>"

definition job_a :: Metric where
  "job_a = \<lparr>Metric.Labels = [\<lparr>Label.Name = ''job'', Label.Value = ''a''\<rparr>],
            Metric.Timestamp = 1600000000, Metric.Value = 1\<rparr>"

definition job_b :: Metric where
  "job_b = \<lparr>Metric.Labels = [\<lparr>Label.Name = ''job'', Label.Value = ''b''\<rparr>],
            Metric.Timestamp = 1600000000, Metric.Value = 2\<rparr>"

definition job_a_dev :: Metric where
  "job_a_dev =
     \<lparr>Metric.Labels = [\<lparr>Label.Name = ''job'', Label.Value = ''a''\<rparr>,
                       \<lparr>Label.Name = ''env'', Label.Value = ''dev''\<rparr>],
      Metric.Timestamp = 1600000000, Metric.Value = 2\<rparr>"

subsection \<open>Facts about sorting and joining\<close>

lemma insert_less_insort:
  "insert_less (\<lambda>a b. Label.Name a < Label.Name b) x ys = insort_key Label.Name x ys"
  by (induction ys) (auto simp: not_less)

lemma insertion_sort_sort_key:
  "insertion_sort (\<lambda>a b. Label.Name a < Label.Name b) xs = sort_key Label.Name xs"
  by (induction xs) (simp_all add: insertion_sort_def insert_less_insort)

lemma sorts_by_name_insertion_sort: "sorts_by_name insertion_sort"
  by (simp add: sorts_by_name_def insertion_sort_sort_key)

lemma sorts_by_name_mset:
  "sorts_by_name srt \<Longrightarrow> mset (srt (\<lambda>a b. Label.Name a < Label.Name b) xs) = mset xs"
  by (simp add: sorts_by_name_def)

lemma sorts_by_name_sorted:
  "sorts_by_name srt \<Longrightarrow> sorted (map Label.Name (srt (\<lambda>a b. Label.Name a < Label.Name b) xs))"
  by (simp add: sorts_by_name_def)

text \<open>
  On labels of pairwise distinct names the contract leaves one result: every
  sorting function returns what the stable sort returns.
\<close>

lemma sorts_by_name_unique:
  assumes "sorts_by_name srt" and "distinct (map Label.Name xs)"
  shows "srt (\<lambda>a b. Label.Name a < Label.Name b) xs = sort_key Label.Name xs"
proof -
  let ?ys = "srt (\<lambda>a b. Label.Name a < Label.Name b) xs"
  have i: "inj_on Label.Name (set xs)"
    using assms(2) by (simp add: distinct_map)
  have m: "mset xs = mset ?ys"
    using assms(1) by (simp add: sorts_by_name_mset)
  have s: "sorted (map Label.Name ?ys)"
    using assms(1) by (rule sorts_by_name_sorted)
  from sort_key_inj_key_eq[OF m i s] show ?thesis by simp
qed

lemma sort_key_short: "length xs \<le> 1 \<Longrightarrow> sort_key f xs = xs"
  by (cases xs) (auto simp: Suc_le_eq)

lemma writeLabels_join:
  "n = i + length ls \<Longrightarrow> writeLabels n i ls b = b @ join_comma (map pair_text ls)"
proof (induction ls arbitrary: i b)
  case Nil
  then show ?case by simp
next
  case (Cons l ls)
  let ?sep = "if ls = [] then [] else '',''"
  from Cons.prems have "writeLabels n i (l # ls) b =
      writeLabels n (Suc i) ls (b @ pair_text l @ ?sep)"
    by (simp add: pair_text_def)
  also from Cons.prems have "\<dots> = (b @ pair_text l @ ?sep) @ join_comma (map pair_text ls)"
    by (intro Cons.IH) simp
  also have "\<dots> = b @ join_comma (map pair_text (l # ls))"
    by (cases ls) simp_all
  finally show ?case .
qed

text \<open>The labels as \<open>stringifyLabels\<close> leaves them.\<close>

lemma stringifyLabels_snd:
  "snd (stringifyLabels srt ts) =
     ts\<lparr>TimeSeries.Labels := TimeSeries.Labels (snd (stringifyLabels srt ts))\<rparr>"
  by (simp add: stringifyLabels_def Let_def)

lemma stringifyLabels_Samples: "Samples (snd (stringifyLabels srt ts)) = Samples ts"
  by (simp add: stringifyLabels_def Let_def)

lemma stringifyLabels_fst:
  "fst (stringifyLabels srt ts) =
     join_comma (map pair_text (TimeSeries.Labels (snd (stringifyLabels srt ts))))"
  by (simp add: stringifyLabels_def Let_def writeLabels_join)

lemma stringifyLabels_mset:
  "sorts_by_name srt \<Longrightarrow>
   mset (TimeSeries.Labels (snd (stringifyLabels srt ts))) = mset (TimeSeries.Labels ts)"
  by (simp add: stringifyLabels_def Let_def sorts_by_name_mset)

lemma stringifyLabels_sorted:
  assumes "sorts_by_name srt"
  shows "sorted (map Label.Name (TimeSeries.Labels (snd (stringifyLabels srt ts))))"
proof (cases "length (TimeSeries.Labels ts) > 1")
  case True
  with assms show ?thesis
    by (simp add: stringifyLabels_def Let_def sorts_by_name_sorted)
next
  case False
  then have "length (map Label.Name (TimeSeries.Labels ts)) \<le> 1" by simp
  then have "sorted (map Label.Name (TimeSeries.Labels ts))"
    by (cases "TimeSeries.Labels ts") (auto simp: Suc_le_eq)
  with False show ?thesis
    by (simp add: stringifyLabels_def Let_def)
qed

lemma stringifyLabels_short:
  "length (TimeSeries.Labels ts) \<le> 1 \<Longrightarrow> snd (stringifyLabels srt ts) = ts"
  by (simp add: stringifyLabels_def Let_def)

lemma stringifyLabels_Labels_distinct:
  assumes "sorts_by_name srt" and "distinct (map Label.Name (TimeSeries.Labels ts))"
  shows "TimeSeries.Labels (snd (stringifyLabels srt ts)) = sort_key Label.Name (TimeSeries.Labels ts)"
  using sorts_by_name_unique[OF assms]
  by (simp add: stringifyLabels_def Let_def sort_key_short)

lemma stringifyLabels_distinct:
  assumes "sorts_by_name srt" and "distinct (map Label.Name (TimeSeries.Labels ts))"
  shows "stringifyLabels srt ts =
     (CanonicalKey_spec (TimeSeries.Labels ts),
      ts\<lparr>TimeSeries.Labels := sort_key Label.Name (TimeSeries.Labels ts)\<rparr>)"
proof -
  note l = stringifyLabels_Labels_distinct[OF assms]
  have "fst (stringifyLabels srt ts) = CanonicalKey_spec (TimeSeries.Labels ts)"
    by (simp only: stringifyLabels_fst l CanonicalKey_spec_def)
  moreover have "snd (stringifyLabels srt ts)
      = ts\<lparr>TimeSeries.Labels := sort_key Label.Name (TimeSeries.Labels ts)\<rparr>"
    by (subst stringifyLabels_snd) (simp only: l)
  ultimately show ?thesis
    by (simp only: prod_eq_iff fst_conv snd_conv simp_thms)
qed

subsection \<open>Facts about the canonical key\<close>

lemma split_at_char:
  "c \<notin> set xs \<Longrightarrow> c \<notin> set ys \<Longrightarrow> xs @ c # r = ys @ c # r' \<Longrightarrow> xs = ys \<and> r = r'"
proof (induction xs arbitrary: ys)
  case Nil
  then show ?case by (cases ys) auto
next
  case (Cons x xs)
  then show ?case by (cases ys) auto
qed

lemma join_comma_Cons:
  "join_comma (s # ss) = s @ (if ss = [] then [] else CHR '','' # join_comma ss)"
  by (cases ss) simp_all

lemma join_comma_Nil_iff: "join_comma (map pair_text ls) = [] \<longleftrightarrow> ls = []"
  by (cases ls) (simp_all add: join_comma_Cons pair_text_def)

lemma key_Cons:
  "join_comma (map pair_text (l # ls)) =
     Label.Name l @ CHR ''='' #
       (Label.Value l @ (if join_comma (map pair_text ls) = [] then []
                         else CHR '','' # join_comma (map pair_text ls)))"
  by (cases ls) (simp_all add: pair_text_def join_comma_Cons)

lemma value_tail_eq:
  assumes "CHR '','' \<notin> set v" and "CHR '','' \<notin> set v'"
    and "v @ (if r = [] then [] else CHR '','' # r) = v' @ (if r' = [] then [] else CHR '','' # r')"
  shows "v = v' \<and> r = r'"
proof (cases "r = []")
  case True
  show ?thesis
  proof (cases "r' = []")
    case True
    with \<open>r = []\<close> assms(3) show ?thesis by simp
  next
    case False
    with \<open>r = []\<close> assms(3) have "v = v' @ CHR '','' # r'" by simp
    then have "CHR '','' \<in> set v" by simp
    with assms(1) show ?thesis by simp
  qed
next
  case False
  show ?thesis
  proof (cases "r' = []")
    case True
    with False assms(3) have "v' = v @ CHR '','' # r" by simp
    then have "CHR '','' \<in> set v'" by simp
    with assms(2) show ?thesis by simp
  next
    case r': False
    with False assms(3) have "v @ CHR '','' # r = v' @ CHR '','' # r'" by simp
    from split_at_char[OF assms(1,2) this] show ?thesis .
  qed
qed

lemma join_comma_inj:
  "plain_labels ls \<Longrightarrow> plain_labels ls' \<Longrightarrow>
   join_comma (map pair_text ls) = join_comma (map pair_text ls') \<Longrightarrow> ls = ls'"
proof (induction ls arbitrary: ls')
  case Nil
  then show ?case using join_comma_Nil_iff[of ls'] by simp
next
  case (Cons l ls)
  have ne: "join_comma (map pair_text (l # ls)) \<noteq> []"
    using join_comma_Nil_iff[of "l # ls"] by blast
  have "ls' \<noteq> []"
  proof
    assume "ls' = []"
    have "join_comma (map pair_text ([]::Label list)) = []" by simp
    with Cons.prems(3) \<open>ls' = []\<close> have "join_comma (map pair_text (l # ls)) = []"
      by (simp only:)
    with ne show False by blast
  qed
  then obtain l' ms where ls': "ls' = l' # ms"
    by (cases ls') auto
  from Cons.prems(1,2) ls' have pl: "plain_label l" "plain_label l'"
    and pls: "plain_labels ls" "plain_labels ms"
    by (simp_all add: plain_labels_def)
  let ?r = "join_comma (map pair_text ls)"
  let ?r' = "join_comma (map pair_text ms)"
  from pl have n1: "CHR ''='' \<notin> set (Label.Name l)" and n2: "CHR ''='' \<notin> set (Label.Name l')"
    and v1: "CHR '','' \<notin> set (Label.Value l)" and v2: "CHR '','' \<notin> set (Label.Value l')"
    by (simp_all add: plain_label_def)
  have "Label.Name l @ CHR ''='' #
        (Label.Value l @ (if ?r = [] then [] else CHR '','' # ?r))
      = Label.Name l' @ CHR ''='' #
        (Label.Value l' @ (if ?r' = [] then [] else CHR '','' # ?r'))"
    using Cons.prems(3) unfolding ls' by (simp only: key_Cons)
  from split_at_char[OF n1 n2 this] have n: "Label.Name l = Label.Name l'"
    and v: "Label.Value l @ (if ?r = [] then [] else CHR '','' # ?r)
      = Label.Value l' @ (if ?r' = [] then [] else CHR '','' # ?r')"
    by blast+
  from value_tail_eq[OF v1 v2 v] have v': "Label.Value l = Label.Value l'" and r: "?r = ?r'"
    by blast+
  from n v' have "l = l'" by simp
  moreover from Cons.IH[OF pls r] have "ls = ms" .
  ultimately show ?case unfolding ls' by simp
qed

lemma plain_labels_mset: "mset xs = mset ys \<Longrightarrow> plain_labels xs = plain_labels ys"
  by (auto simp: plain_labels_def list_all_iff dest: mset_eq_setD)

text \<open>
  C2, as the code has it. The key is injective on label sequences in which no name
  holds \<^verbatim>\<open>=\<close> and no value holds \<^verbatim>\<open>,\<close>: two such sequences that differ as
  sets of (name, value) pairs have different keys, whatever the library's sort does
  with labels of equal name. The key does not quote or escape, so outside these
  sequences it is not injective (\<open>canonical_key_not_injective\<close>).
\<close>

theorem canonical_key_injective_plain:
  assumes "sorts_by_name srt"
    and "plain_labels (TimeSeries.Labels ts1)" and "plain_labels (TimeSeries.Labels ts2)"
    and "set (TimeSeries.Labels ts1) \<noteq> set (TimeSeries.Labels ts2)"
  shows "fst (stringifyLabels srt ts1) \<noteq> fst (stringifyLabels srt ts2)"
proof
  let ?l1 = "TimeSeries.Labels (snd (stringifyLabels srt ts1))"
  let ?l2 = "TimeSeries.Labels (snd (stringifyLabels srt ts2))"
  have m1: "mset ?l1 = mset (TimeSeries.Labels ts1)" and m2: "mset ?l2 = mset (TimeSeries.Labels ts2)"
    using assms(1) by (simp_all only: stringifyLabels_mset)
  assume "fst (stringifyLabels srt ts1) = fst (stringifyLabels srt ts2)"
  then have "join_comma (map pair_text ?l1) = join_comma (map pair_text ?l2)"
    by (simp only: stringifyLabels_fst)
  moreover have "plain_labels ?l1" and "plain_labels ?l2"
    using assms(2,3) plain_labels_mset[OF m1] plain_labels_mset[OF m2] by simp_all
  ultimately have "?l1 = ?l2"
    by (intro join_comma_inj)
  with m1 m2 have "mset (TimeSeries.Labels ts1) = mset (TimeSeries.Labels ts2)"
    by simp
  then have "set (TimeSeries.Labels ts1) = set (TimeSeries.Labels ts2)"
    by (rule mset_eq_setD)
  with assms(4) show False by simp
qed

theorem canonical_key_injective_plain_witness:
  "sorts_by_name insertion_sort
   \<and> plain_labels [\<lparr>Label.Name = ''a,b'', Label.Value = ''x=y''\<rparr>]
   \<and> plain_labels [\<lparr>Label.Name = ''b'', Label.Value = ''x=y''\<rparr>, \<lparr>Label.Name = ''a'', Label.Value = ''''\<rparr>]
   \<and> fst (stringifyLabels insertion_sort
        \<lparr>TimeSeries.Labels = [\<lparr>Label.Name = ''a,b'', Label.Value = ''x=y''\<rparr>], Samples = []\<rparr>)
     \<noteq> fst (stringifyLabels insertion_sort
        \<lparr>TimeSeries.Labels = [\<lparr>Label.Name = ''b'', Label.Value = ''x=y''\<rparr>,
                              \<lparr>Label.Name = ''a'', Label.Value = ''''\<rparr>], Samples = []\<rparr>)"
proof -
  let ?t1 = "\<lparr>TimeSeries.Labels = [\<lparr>Label.Name = ''a,b'', Label.Value = ''x=y''\<rparr>], Samples = []\<rparr>"
  let ?t2 = "\<lparr>TimeSeries.Labels = [\<lparr>Label.Name = ''b'', Label.Value = ''x=y''\<rparr>,
                              \<lparr>Label.Name = ''a'', Label.Value = ''''\<rparr>], Samples = []\<rparr>"
  have p1: "plain_labels (TimeSeries.Labels ?t1)"
    by (simp add: plain_labels_def plain_label_def)
  have p2: "plain_labels (TimeSeries.Labels ?t2)"
    by (simp add: plain_labels_def plain_label_def)
  have ne: "set (TimeSeries.Labels ?t1) \<noteq> set (TimeSeries.Labels ?t2)"
    by auto
  from canonical_key_injective_plain[OF sorts_by_name_insertion_sort p1 p2 ne]
    sorts_by_name_insertion_sort p1 p2
  show ?thesis by simp
qed

text \<open>
  The label \<^verbatim>\<open>a\<close> with the value \<^verbatim>\<open>1,b=2\<close> and the two labels \<^verbatim>\<open>a=1\<close>,
  \<^verbatim>\<open>b=2\<close> differ as sets of pairs and have the same key \<^verbatim>\<open>a=1,b=2\<close>. The first
  series has one label and is not sorted; the second is in order already.
\<close>

theorem canonical_key_not_injective:
  "set [\<lparr>Label.Name = ''a'', Label.Value = ''1,b=2''\<rparr>]
     \<noteq> set [\<lparr>Label.Name = ''a'', Label.Value = ''1''\<rparr>, \<lparr>Label.Name = ''b'', Label.Value = ''2''\<rparr>]
   \<and> fst (stringifyLabels insertion_sort
        \<lparr>TimeSeries.Labels = [\<lparr>Label.Name = ''a'', Label.Value = ''1,b=2''\<rparr>], Samples = []\<rparr>)
     = ''a=1,b=2''
   \<and> fst (stringifyLabels insertion_sort
        \<lparr>TimeSeries.Labels =
           [\<lparr>Label.Name = ''a'', Label.Value = ''1''\<rparr>, \<lparr>Label.Name = ''b'', Label.Value = ''2''\<rparr>],
         Samples = []\<rparr>)
     = ''a=1,b=2''"
  by (auto simp: stringifyLabels_def insertion_sort_def)

lemma sort_key_mset_eq:
  assumes "mset xs = mset ys" and "distinct (map Label.Name xs)"
  shows "sort_key Label.Name xs = sort_key Label.Name ys"
proof -
  have "inj_on Label.Name (set xs)"
    using assms(2) by (simp add: distinct_map)
  moreover have "mset xs = mset (sort_key Label.Name ys)"
    using assms(1) by simp
  ultimately show ?thesis
    by (intro sort_key_inj_key_eq) simp_all
qed

lemma distinct_names_mset:
  assumes "mset xs = mset ys" and "distinct (map Label.Name xs)"
  shows "distinct (map Label.Name ys)"
proof -
  from assms(1) have "mset (map Label.Name xs) = mset (map Label.Name ys)"
    by simp
  with assms(2) show ?thesis
    using mset_eq_imp_distinct_iff by blast
qed

text \<open>
  C3. Two label sequences that hold the same (name, value) pairs in different orders
  have the same key, and the key is the one of the specification: the labels sorted
  ascending by name, each written \<^verbatim>\<open>name=value\<close>, joined by single commas with no
  trailing separator. The names of a label set are pairwise distinct: every series
  that reaches \<open>stringifyLabels\<close> is built by \<open>toTimeSeries\<close> from a Go map
  (\<open>toTimeSeries_names_distinct\<close>). This holds for every sorting function that keeps
  the contract of \<^verbatim>\<open>sort.Slice\<close>.
\<close>

theorem stringifyLabels_order_independent:
  assumes "sorts_by_name srt"
    and "mset (TimeSeries.Labels ts1) = mset (TimeSeries.Labels ts2)"
    and "distinct (map Label.Name (TimeSeries.Labels ts1))"
  shows "fst (stringifyLabels srt ts1) = fst (stringifyLabels srt ts2)
    \<and> fst (stringifyLabels srt ts1) = CanonicalKey_spec (TimeSeries.Labels ts1)
    \<and> fst (stringifyLabels srt ts1)
        = join_comma (map pair_text (TimeSeries.Labels (snd (stringifyLabels srt ts1))))
    \<and> sorted (map Label.Name (TimeSeries.Labels (snd (stringifyLabels srt ts1))))"
proof -
  note d2 = distinct_names_mset[OF assms(2,3)]
  have "fst (stringifyLabels srt ts1) = CanonicalKey_spec (TimeSeries.Labels ts1)"
    and "fst (stringifyLabels srt ts2) = CanonicalKey_spec (TimeSeries.Labels ts2)"
    by (simp_all only: stringifyLabels_distinct[OF assms(1,3)]
        stringifyLabels_distinct[OF assms(1) d2] fst_conv)
  moreover have "CanonicalKey_spec (TimeSeries.Labels ts1) = CanonicalKey_spec (TimeSeries.Labels ts2)"
    by (simp only: CanonicalKey_spec_def sort_key_mset_eq[OF assms(2,3)])
  ultimately show ?thesis
    using stringifyLabels_sorted[OF assms(1), of ts1] stringifyLabels_fst[of srt ts1]
    by (simp only: simp_thms)
qed

theorem stringifyLabels_order_independent_witness:
  "sorts_by_name insertion_sort
   \<and> mset [\<lparr>Label.Name = ''job'', Label.Value = ''a''\<rparr>, \<lparr>Label.Name = ''env'', Label.Value = ''prod''\<rparr>]
     = mset [\<lparr>Label.Name = ''env'', Label.Value = ''prod''\<rparr>, \<lparr>Label.Name = ''job'', Label.Value = ''a''\<rparr>]
   \<and> distinct (map Label.Name
        [\<lparr>Label.Name = ''job'', Label.Value = ''a''\<rparr>, \<lparr>Label.Name = ''env'', Label.Value = ''prod''\<rparr>])
   \<and> fst (stringifyLabels insertion_sort \<lparr>TimeSeries.Labels =
        [\<lparr>Label.Name = ''job'', Label.Value = ''a''\<rparr>, \<lparr>Label.Name = ''env'', Label.Value = ''prod''\<rparr>],
        Samples = []\<rparr>)
     = fst (stringifyLabels insertion_sort \<lparr>TimeSeries.Labels =
        [\<lparr>Label.Name = ''env'', Label.Value = ''prod''\<rparr>, \<lparr>Label.Name = ''job'', Label.Value = ''a''\<rparr>],
        Samples = []\<rparr>)
   \<and> fst (stringifyLabels insertion_sort \<lparr>TimeSeries.Labels =
        [\<lparr>Label.Name = ''job'', Label.Value = ''a''\<rparr>, \<lparr>Label.Name = ''env'', Label.Value = ''prod''\<rparr>],
        Samples = []\<rparr>) = ''env=prod,job=a''"
proof -
  let ?t1 = "\<lparr>TimeSeries.Labels =
        [\<lparr>Label.Name = ''job'', Label.Value = ''a''\<rparr>, \<lparr>Label.Name = ''env'', Label.Value = ''prod''\<rparr>],
        Samples = []\<rparr>"
  let ?t2 = "\<lparr>TimeSeries.Labels =
        [\<lparr>Label.Name = ''env'', Label.Value = ''prod''\<rparr>, \<lparr>Label.Name = ''job'', Label.Value = ''a''\<rparr>],
        Samples = []\<rparr>"
  have h1: "mset (TimeSeries.Labels ?t1) = mset (TimeSeries.Labels ?t2)" by simp
  have h2: "distinct (map Label.Name (TimeSeries.Labels ?t1))" by simp
  have k: "fst (stringifyLabels insertion_sort ?t1) = ''env=prod,job=a''"
    by (simp add: stringifyLabels_def insertion_sort_def)
  note t = stringifyLabels_order_independent[OF sorts_by_name_insertion_sort h1 h2]
  from t[THEN conjunct1] sorts_by_name_insertion_sort h1 h2 k show ?thesis
    by (intro conjI) simp_all
qed

text \<open>
  C9, as the code has it. Computing the key sorts the labels of the caller's time
  series in place: after the call they are the same labels in ascending order of
  name, and the samples are as before. A series of at most one label is unchanged,
  and where the names are pairwise distinct the order after the call is the one
  sorted order there is. Nothing else is read or written.
\<close>

theorem stringifyLabels_sorts_in_place:
  assumes "sorts_by_name srt"
  shows "mset (TimeSeries.Labels (snd (stringifyLabels srt ts))) = mset (TimeSeries.Labels ts)
    \<and> sorted (map Label.Name (TimeSeries.Labels (snd (stringifyLabels srt ts))))
    \<and> Samples (snd (stringifyLabels srt ts)) = Samples ts
    \<and> (length (TimeSeries.Labels ts) \<le> 1 \<longrightarrow> snd (stringifyLabels srt ts) = ts)
    \<and> (distinct (map Label.Name (TimeSeries.Labels ts)) \<longrightarrow>
          snd (stringifyLabels srt ts)
            = ts\<lparr>TimeSeries.Labels := sort_key Label.Name (TimeSeries.Labels ts)\<rparr>)"
proof (intro conjI impI)
  show "mset (TimeSeries.Labels (snd (stringifyLabels srt ts))) = mset (TimeSeries.Labels ts)"
    using assms by (rule stringifyLabels_mset)
  show "sorted (map Label.Name (TimeSeries.Labels (snd (stringifyLabels srt ts))))"
    using assms by (rule stringifyLabels_sorted)
  show "Samples (snd (stringifyLabels srt ts)) = Samples ts"
    by (rule stringifyLabels_Samples)
next
  assume "length (TimeSeries.Labels ts) \<le> 1"
  then show "snd (stringifyLabels srt ts) = ts"
    by (rule stringifyLabels_short)
next
  assume "distinct (map Label.Name (TimeSeries.Labels ts))"
  from stringifyLabels_distinct[OF assms this]
  show "snd (stringifyLabels srt ts)
      = ts\<lparr>TimeSeries.Labels := sort_key Label.Name (TimeSeries.Labels ts)\<rparr>"
    by (simp only: snd_conv)
qed

theorem stringifyLabels_sorts_in_place_witness:
  "sorts_by_name insertion_sort
   \<and> length (TimeSeries.Labels \<lparr>TimeSeries.Labels = [\<lparr>Label.Name = ''job'', Label.Value = ''a''\<rparr>],
      Samples = []\<rparr>) \<le> 1
   \<and> snd (stringifyLabels insertion_sort
        \<lparr>TimeSeries.Labels = [\<lparr>Label.Name = ''job'', Label.Value = ''a''\<rparr>], Samples = []\<rparr>)
     = \<lparr>TimeSeries.Labels = [\<lparr>Label.Name = ''job'', Label.Value = ''a''\<rparr>], Samples = []\<rparr>
   \<and> distinct (map Label.Name
        [\<lparr>Label.Name = ''job'', Label.Value = ''a''\<rparr>, \<lparr>Label.Name = ''env'', Label.Value = ''prod''\<rparr>])
   \<and> snd (stringifyLabels insertion_sort
        \<lparr>TimeSeries.Labels =
           [\<lparr>Label.Name = ''job'', Label.Value = ''a''\<rparr>, \<lparr>Label.Name = ''env'', Label.Value = ''prod''\<rparr>],
         Samples = []\<rparr>)
     = \<lparr>TimeSeries.Labels =
           [\<lparr>Label.Name = ''env'', Label.Value = ''prod''\<rparr>, \<lparr>Label.Name = ''job'', Label.Value = ''a''\<rparr>],
         Samples = []\<rparr>"
proof -
  let ?t1 = "\<lparr>TimeSeries.Labels = [\<lparr>Label.Name = ''job'', Label.Value = ''a''\<rparr>], Samples = []\<rparr>"
  let ?t2 = "\<lparr>TimeSeries.Labels =
           [\<lparr>Label.Name = ''job'', Label.Value = ''a''\<rparr>, \<lparr>Label.Name = ''env'', Label.Value = ''prod''\<rparr>],
         Samples = []\<rparr>"
  note s = sorts_by_name_insertion_sort
  have l: "length (TimeSeries.Labels ?t1) \<le> 1" by simp
  have d: "distinct (map Label.Name (TimeSeries.Labels ?t2))" by simp
  note a = stringifyLabels_sorts_in_place[OF s, of ?t1, THEN conjunct2, THEN conjunct2,
      THEN conjunct2, THEN conjunct1, rule_format, OF l]
  note b = stringifyLabels_sorts_in_place[OF s, of ?t2, THEN conjunct2, THEN conjunct2,
      THEN conjunct2, THEN conjunct2, rule_format, OF d]
  from s l a d b show ?thesis by simp
qed

text \<open>
  A series with the labels \<^verbatim>\<open>job=a\<close>, \<^verbatim>\<open>env=prod\<close> in this order has them in the
  order \<^verbatim>\<open>env=prod\<close>, \<^verbatim>\<open>job=a\<close> after the call.
\<close>

theorem stringifyLabels_reorders_caller:
  "TimeSeries.Labels (snd (stringifyLabels insertion_sort \<lparr>TimeSeries.Labels =
        [\<lparr>Label.Name = ''job'', Label.Value = ''a''\<rparr>, \<lparr>Label.Name = ''env'', Label.Value = ''prod''\<rparr>],
        Samples = []\<rparr>))
     = [\<lparr>Label.Name = ''env'', Label.Value = ''prod''\<rparr>, \<lparr>Label.Name = ''job'', Label.Value = ''a''\<rparr>]
   \<and> snd (stringifyLabels insertion_sort \<lparr>TimeSeries.Labels =
        [\<lparr>Label.Name = ''job'', Label.Value = ''a''\<rparr>, \<lparr>Label.Name = ''env'', Label.Value = ''prod''\<rparr>],
        Samples = []\<rparr>)
     \<noteq> \<lparr>TimeSeries.Labels =
        [\<lparr>Label.Name = ''job'', Label.Value = ''a''\<rparr>, \<lparr>Label.Name = ''env'', Label.Value = ''prod''\<rparr>],
        Samples = []\<rparr>"
  by (simp add: stringifyLabels_def insertion_sort_def)

subsection \<open>Facts about toTimeSeries\<close>

lemma map_of_fold_label_update:
  "map_of (fold (\<lambda>l. AList.update (Label.Name l) (Label.Value l)) ls al)
     = map_of al ++ map_of (rev (map (\<lambda>l. (Label.Name l, Label.Value l)) ls))"
  by (induction ls arbitrary: al) (simp_all add: update_conv')

lemma map_of_fold_pair_update:
  "map_of (fold (\<lambda>(k, v). AList.update k v) kvs al) = map_of al ++ map_of (rev kvs)"
  by (induction kvs arbitrary: al) (auto simp: update_conv')

lemma distinct_fold_label_update:
  "distinct (map fst al) \<Longrightarrow>
   distinct (map fst (fold (\<lambda>l. AList.update (Label.Name l) (Label.Value l)) ls al))"
  by (induction ls arbitrary: al) (simp_all add: distinct_update)

lemma distinct_fold_pair_update:
  "distinct (map fst al) \<Longrightarrow> distinct (map fst (fold (\<lambda>(k, v). AList.update k v) kvs al))"
  by (induction kvs arbitrary: al) (auto simp: distinct_update)

lemma is_order_distinct:
  assumes "is_order ord" and "distinct (map fst al)"
  shows "distinct (map fst (ord al))"
proof -
  from assms(1) have "mset (ord al) = mset al"
    by (simp add: is_order_def)
  then have "mset (map fst (ord al)) = mset (map fst al)"
    by simp
  with assms(2) show ?thesis
    using mset_eq_imp_distinct_iff by blast
qed

lemma is_order_map_of:
  assumes "is_order ord" and "distinct (map fst al)"
  shows "map_of (ord al) = map_of al"
proof -
  from assms(1) have "set (ord al) = set al"
    unfolding is_order_def by (metis set_mset_mset)
  with assms is_order_distinct[OF assms] show ?thesis
    by (simp add: map_of_inject_set)
qed

lemma map_of_rev_distinct: "distinct (map fst al) \<Longrightarrow> map_of (rev al) = map_of al"
  by (simp add: map_of_inject_set rev_map[symmetric])

lemma split_label_comp:
  "(\<lambda>l. (Label.Name l, Label.Value l)) \<circ> (\<lambda>(k, v). \<lparr>Label.Name = k, Label.Value = v\<rparr>) = id"
  by auto

lemma name_label_comp:
  "Label.Name \<circ> (\<lambda>(k, v). \<lparr>Label.Name = k, Label.Value = v\<rparr>) = fst"
  by auto

lemma toTimeSeries_built:
  "toTimeSeries ord rr m t = newTimeSeries ord (Metric.Value m) (builtLabels ord rr m) t"
  by (simp add: toTimeSeries_def builtLabels_def)

lemma distinct_builtLabels: "distinct (map fst (builtLabels ord rr m))"
  unfolding builtLabels_def
  by (intro distinct_fold_pair_update distinct_update distinct_fold_label_update) simp

lemma map_of_builtLabels:
  assumes "is_order ord" and "distinct (map fst (RecordingRule.Labels rr))"
  shows "map_of (builtLabels ord rr m)
     = (metricLabels m)(''__name__'' \<mapsto> RecordingRule.Name rr) ++ map_of (RecordingRule.Labels rr)"
proof -
  have "map_of (rev (ord (RecordingRule.Labels rr))) = map_of (RecordingRule.Labels rr)"
    using assms by (simp add: map_of_rev_distinct is_order_distinct is_order_map_of)
  then show ?thesis
    by (simp add: builtLabels_def map_of_fold_pair_update map_of_fold_label_update
        update_conv' metricLabels_def)
qed

lemma toTimeSeries_names_distinct:
  assumes "is_order ord"
  shows "distinct (map Label.Name (TimeSeries.Labels (toTimeSeries ord rr m t)))"
  using is_order_distinct[OF assms distinct_builtLabels[of ord rr m]]
  by (simp add: toTimeSeries_built newTimeSeries_def name_label_comp)

lemma labelsOf_toTimeSeries:
  assumes "is_order ord" and "distinct (map fst (RecordingRule.Labels rr))"
  shows "labelsOf (toTimeSeries ord rr m t)
     = (metricLabels m)(''__name__'' \<mapsto> RecordingRule.Name rr) ++ map_of (RecordingRule.Labels rr)"
proof -
  have "labelsOf (toTimeSeries ord rr m t) = map_of (ord (builtLabels ord rr m))"
    by (simp add: labelsOf_def toTimeSeries_built newTimeSeries_def split_label_comp)
  also have "\<dots> = map_of (builtLabels ord rr m)"
    using assms(1) distinct_builtLabels by (rule is_order_map_of)
  finally show ?thesis
    by (simp add: map_of_builtLabels[OF assms])
qed

lemma label_pair_inj: "inj (\<lambda>l::Label. (Label.Name l, Label.Value l))"
proof (rule injI)
  fix x y :: Label
  assume "(Label.Name x, Label.Value x) = (Label.Name y, Label.Value y)"
  then show "x = y" by (cases x, cases y) simp
qed

lemma toTimeSeries_mset:
  assumes "is_order ord" and "is_order ord'" and "distinct (map fst (RecordingRule.Labels rr))"
  shows "mset (TimeSeries.Labels (toTimeSeries ord rr m t))
     = mset (TimeSeries.Labels (toTimeSeries ord' rr m t))"
proof -
  let ?f = "\<lambda>l. (Label.Name l, Label.Value l)"
  let ?a = "TimeSeries.Labels (toTimeSeries ord rr m t)"
  let ?b = "TimeSeries.Labels (toTimeSeries ord' rr m t)"
  have da: "distinct (map Label.Name ?a)" and db: "distinct (map Label.Name ?b)"
    using assms(1,2) by (simp_all add: toTimeSeries_names_distinct)
  have fa: "map fst (map ?f ?a) = map Label.Name ?a" and fb: "map fst (map ?f ?b) = map Label.Name ?b"
    by (simp_all add: comp_def)
  have m: "map_of (map ?f ?a) = map_of (map ?f ?b)"
    using labelsOf_toTimeSeries[OF assms(1,3), of m t] labelsOf_toTimeSeries[OF assms(2,3), of m t]
    unfolding labelsOf_def by simp
  have "set (map ?f ?a) = set (map ?f ?b)"
    using m da db map_of_inject_set[of "map ?f ?a" "map ?f ?b"] unfolding fa fb by blast
  then have "?f ` set ?a = ?f ` set ?b" by (simp only: set_map)
  then have sab: "set ?a = set ?b"
    using inj_image_eq_iff[OF label_pair_inj] by blast
  from da have "distinct ?a" by (simp add: distinct_map)
  moreover from db have "distinct ?b" by (simp add: distinct_map)
  ultimately show ?thesis
    using sab by (simp only: set_eq_iff_mset_eq_distinct)
qed

text \<open>
  Neither the order in which Go ranges over the maps nor the sorting algorithm of the
  library shows in the key and the series that \<open>Exec\<close> computes for a metric.
\<close>

lemma toTimeSeries_choices_irrelevant:
  assumes "sorts_by_name srt" and "sorts_by_name srt'"
    and "is_order ord" and "is_order ord'" and "distinct (map fst (RecordingRule.Labels rr))"
  shows "stringifyLabels srt (toTimeSeries ord rr m t) = stringifyLabels srt' (toTimeSeries ord' rr m t)"
proof -
  let ?a = "toTimeSeries ord rr m t"
  let ?b = "toTimeSeries ord' rr m t"
  have da: "distinct (map Label.Name (TimeSeries.Labels ?a))"
    and db: "distinct (map Label.Name (TimeSeries.Labels ?b))"
    using assms(3,4) by (simp_all add: toTimeSeries_names_distinct)
  note ms = toTimeSeries_mset[OF assms(3,4,5), of m t]
  note s = sort_key_mset_eq[OF ms da]
  have "Samples ?a = Samples ?b"
    by (simp add: toTimeSeries_built newTimeSeries_def)
  then have "?a\<lparr>TimeSeries.Labels := sort_key Label.Name (TimeSeries.Labels ?a)\<rparr>
      = ?b\<lparr>TimeSeries.Labels := sort_key Label.Name (TimeSeries.Labels ?b)\<rparr>"
    unfolding s by (intro TimeSeries.equality) simp_all
  then show ?thesis
    by (simp only: stringifyLabels_distinct[OF assms(1) da] stringifyLabels_distinct[OF assms(2) db]
        CanonicalKey_spec_def s)
qed

text \<open>
  C4. The map that \<open>toTimeSeries\<close> builds for a metric, and with it the labels of
  the series it returns, are the
  labels of the metric, with \<^verbatim>\<open>__name__\<close> set to the name of the rule, overlaid with
  the static labels of the rule: a static label wins over \<^verbatim>\<open>__name__\<close> and over a
  label of the metric of the same name. No name occurs twice, and the sample carries
  the value and the time given. This holds for every order in which Go ranges over
  the two maps, the static labels being a Go map (its keys are distinct).
\<close>

theorem toTimeSeries_labels:
  assumes "is_order ord" and "distinct (map fst (RecordingRule.Labels rr))"
  shows "toTimeSeries ord rr m t = newTimeSeries ord (Metric.Value m) (builtLabels ord rr m) t
    \<and> map_of (builtLabels ord rr m)
       = (metricLabels m)(''__name__'' \<mapsto> RecordingRule.Name rr) ++ map_of (RecordingRule.Labels rr)
    \<and> labelsOf (toTimeSeries ord rr m t)
       = (metricLabels m)(''__name__'' \<mapsto> RecordingRule.Name rr) ++ map_of (RecordingRule.Labels rr)
    \<and> distinct (map Label.Name (TimeSeries.Labels (toTimeSeries ord rr m t)))
    \<and> (\<forall>k v. (k, v) \<in> set (RecordingRule.Labels rr) \<longrightarrow>
          labelsOf (toTimeSeries ord rr m t) k = Some v
          \<and> \<lparr>Label.Name = k, Label.Value = v\<rparr> \<in> set (TimeSeries.Labels (toTimeSeries ord rr m t)))
    \<and> Samples (toTimeSeries ord rr m t) = [\<lparr>Sample.Value = Metric.Value m, Sample.Timestamp = t\<rparr>]"
proof (intro conjI allI impI)
  show "toTimeSeries ord rr m t = newTimeSeries ord (Metric.Value m) (builtLabels ord rr m) t"
    by (rule toTimeSeries_built)
  show "map_of (builtLabels ord rr m)
       = (metricLabels m)(''__name__'' \<mapsto> RecordingRule.Name rr) ++ map_of (RecordingRule.Labels rr)"
    by (rule map_of_builtLabels[OF assms])
  show eq: "labelsOf (toTimeSeries ord rr m t)
       = (metricLabels m)(''__name__'' \<mapsto> RecordingRule.Name rr) ++ map_of (RecordingRule.Labels rr)"
    by (rule labelsOf_toTimeSeries[OF assms])
  show "distinct (map Label.Name (TimeSeries.Labels (toTimeSeries ord rr m t)))"
    by (rule toTimeSeries_names_distinct[OF assms(1)])
  show "Samples (toTimeSeries ord rr m t) = [\<lparr>Sample.Value = Metric.Value m, Sample.Timestamp = t\<rparr>]"
    by (simp add: toTimeSeries_built newTimeSeries_def)
next
  fix k v
  assume kv: "(k, v) \<in> set (RecordingRule.Labels rr)"
  with assms(2) have "map_of (RecordingRule.Labels rr) k = Some v" by simp
  then show look: "labelsOf (toTimeSeries ord rr m t) k = Some v"
    by (simp add: labelsOf_toTimeSeries[OF assms] map_add_Some_iff)
  then have "(k, v) \<in> set (map (\<lambda>l. (Label.Name l, Label.Value l))
      (TimeSeries.Labels (toTimeSeries ord rr m t)))"
    unfolding labelsOf_def by (rule map_of_SomeD)
  then obtain l where "l \<in> set (TimeSeries.Labels (toTimeSeries ord rr m t))"
    and "Label.Name l = k" and "Label.Value l = v" by auto
  moreover from this have "l = \<lparr>Label.Name = k, Label.Value = v\<rparr>" by simp
  ultimately show "\<lparr>Label.Name = k, Label.Value = v\<rparr>
      \<in> set (TimeSeries.Labels (toTimeSeries ord rr m t))" by simp
qed

subsection \<open>Facts about Exec\<close>

lemma Exec_loop_step:
  "Exec_loop srt ord rr (r # rs) duplicates tss =
     (if seriesKey srt ord rr r \<in> duplicates
      then (([], Some (DuplicateSeries r (seriesKey srt ord rr r) errDuplicate)),
            rr\<lparr>lastExecError := Some errDuplicate\<rparr>)
      else Exec_loop srt ord rr rs (insert (seriesKey srt ord rr r) duplicates)
             (tss @ [outSeries srt ord rr r]))"
  by (simp add: seriesKey_def outSeries_def split: prod.splits)

lemma Exec_loop_distinct:
  "distinct (map (seriesKey srt ord rr) ms) \<Longrightarrow>
   seriesKey srt ord rr ` set ms \<inter> duplicates = {} \<Longrightarrow>
   Exec_loop srt ord rr ms duplicates tss = ((tss @ map (outSeries srt ord rr) ms, None), rr)"
proof (induction ms arbitrary: duplicates tss)
  case Nil
  then show ?case by simp
next
  case (Cons r rs)
  from Cons.prems have fresh: "seriesKey srt ord rr r \<notin> duplicates"
    and d: "distinct (map (seriesKey srt ord rr) rs)"
    and i: "seriesKey srt ord rr ` set rs \<inter> insert (seriesKey srt ord rr r) duplicates = {}"
    by auto
  from Cons.IH[OF d i] fresh show ?case
    by (simp add: Exec_loop_step del: Exec_loop.simps)
qed

lemma Exec_loop_duplicate:
  "\<not> (distinct (map (seriesKey srt ord rr) ms) \<and> seriesKey srt ord rr ` set ms \<inter> duplicates = {}) \<Longrightarrow>
   \<exists>r \<in> set ms. Exec_loop srt ord rr ms duplicates tss =
     (([], Some (DuplicateSeries r (seriesKey srt ord rr r) errDuplicate)),
      rr\<lparr>lastExecError := Some errDuplicate\<rparr>)"
proof (induction ms arbitrary: duplicates tss)
  case Nil
  then show ?case by simp
next
  case (Cons r rs)
  show ?case
  proof (cases "seriesKey srt ord rr r \<in> duplicates")
    case True
    then show ?thesis by (simp add: Exec_loop_step del: Exec_loop.simps)
  next
    case False
    with Cons.prems have "\<not> (distinct (map (seriesKey srt ord rr) rs)
        \<and> seriesKey srt ord rr ` set rs \<inter> insert (seriesKey srt ord rr r) duplicates = {})"
      by auto
    from Cons.IH[OF this] False show ?thesis
      by (simp add: Exec_loop_step del: Exec_loop.simps)
  qed
qed

lemma seriesKey_status [simp]:
  "seriesKey srt ord (rr\<lparr>lastExecTime := t, lastExecError := e\<rparr>) = seriesKey srt ord rr"
  by (rule ext) (simp add: seriesKey_def toTimeSeries_def)

lemma outSeries_status [simp]:
  "outSeries srt ord (rr\<lparr>lastExecTime := t, lastExecError := e\<rparr>) = outSeries srt ord rr"
  by (rule ext) (simp add: outSeries_def toTimeSeries_def)

lemma Exec_query_ok:
  "q ctx (Expr rr) = (ms, None) \<Longrightarrow>
   Exec srt ord q now rr ctx True =
     (case Exec_loop srt ord (rr\<lparr>lastExecTime := now, lastExecError := None\<rparr>) ms {} [] of
        (res, rr2) \<Rightarrow> (res, rr2, [(ctx, Expr rr)]))"
  by (simp add: Exec_def)

lemma Exec_query_failed:
  "q ctx (Expr rr) = (ms, Some e) \<Longrightarrow>
   Exec srt ord q now rr ctx True =
     (([], Some (QueryFailed (Expr rr) e)),
      rr\<lparr>lastExecTime := now, lastExecError := Some e\<rparr>, [(ctx, Expr rr)])"
  by (simp add: Exec_def)

lemma Exec_success_eq:
  assumes "q ctx (Expr rr) = (ms, None)" and "distinct (map (seriesKey srt ord rr) ms)"
  shows "Exec srt ord q now rr ctx True =
     ((map (outSeries srt ord rr) ms, None),
      rr\<lparr>lastExecTime := now, lastExecError := None\<rparr>, [(ctx, Expr rr)])"
  using assms by (simp add: Exec_query_ok Exec_loop_distinct)

lemma outSeries_Samples:
  "Samples (outSeries srt ord rr r) =
     [\<lparr>Sample.Value = Metric.Value r, Sample.Timestamp = time_Unix (Metric.Timestamp r) 0\<rparr>]"
  by (simp add: outSeries_def stringifyLabels_Samples toTimeSeries_def newTimeSeries_def)

text \<open>
  C1. When the query succeeds and two of the returned metrics, at positions
  \<open>i < j\<close>, get the same canonical key after the \<^verbatim>\<open>__name__\<close> and static-label
  overlay, \<open>Exec\<close> returns no series and an error that wraps \<open>errDuplicate\<close>, and
  \<open>lastExecError\<close> is \<open>errDuplicate\<close> afterwards (the query itself had recorded
  nil); \<open>lastExecTime\<close> is the time of this call.
\<close>

theorem Exec_duplicate_series:
  assumes "q ctx (Expr rr) = (ms, None)"
    and "i < j" and "j < length ms"
    and "seriesKey srt ord rr (ms ! i) = seriesKey srt ord rr (ms ! j)"
  shows "\<exists>r \<in> set ms.
      Exec srt ord q now rr ctx True =
        (([], Some (DuplicateSeries r (seriesKey srt ord rr r) errDuplicate)),
         rr\<lparr>lastExecTime := now, lastExecError := Some errDuplicate\<rparr>, [(ctx, Expr rr)])
      \<and> errors_Is (DuplicateSeries r (seriesKey srt ord rr r) errDuplicate) errDuplicate"
proof -
  let ?rr1 = "rr\<lparr>lastExecTime := now, lastExecError := None\<rparr>"
  have "\<not> distinct (map (seriesKey srt ord ?rr1) ms)"
  proof
    assume "distinct (map (seriesKey srt ord ?rr1) ms)"
    from nth_eq_iff_index_eq[OF this, of i j] assms(2-4) show False by simp
  qed
  then have "\<not> (distinct (map (seriesKey srt ord ?rr1) ms) \<and> seriesKey srt ord ?rr1 ` set ms \<inter> {} = {})"
    by simp
  from Exec_loop_duplicate[OF this, of "[]"] obtain r where "r \<in> set ms"
    and "Exec_loop srt ord ?rr1 ms {} [] =
       (([], Some (DuplicateSeries r (seriesKey srt ord ?rr1 r) errDuplicate)),
        ?rr1\<lparr>lastExecError := Some errDuplicate\<rparr>)"
    by blast
  with assms(1) show ?thesis
    by (intro bexI[of _ r]) (simp_all add: Exec_query_ok)
qed

text \<open>
  C5. With \<^verbatim>\<open>series = false\<close> \<open>Exec\<close> returns no series and no error, sends no
  query, and leaves the rule, \<open>lastExecTime\<close> and \<open>lastExecError\<close> included, as it
  was; this for every rule, context, querier and clock.
\<close>

theorem Exec_without_series:
  "Exec srt ord q now rr ctx False = (([], None), rr, [])"
  by (simp add: Exec_def)

text \<open>
  C7. A cycle whose query fails returns the error wrapped with the expression and
  records it in \<open>lastExecError\<close>; a following cycle whose query succeeds with
  pairwise different keys leaves \<open>lastExecError\<close> nil and returns no error.
\<close>

theorem Exec_error_does_not_latch:
  assumes "q1 ctx1 (Expr rr) = (ms1, Some e)"
    and "q2 ctx2 (Expr rr) = (ms2, None)"
    and "distinct (map (seriesKey srt ord rr) ms2)"
  shows "(case Exec srt ord q1 now1 rr ctx1 True of
            (res1, rr1, sent1) \<Rightarrow>
              res1 = ([], Some (QueryFailed (Expr rr) e))
              \<and> lastExecError rr1 = Some e
              \<and> (case Exec srt ord q2 now2 rr1 ctx2 True of
                   (res2, rr2, sent2) \<Rightarrow>
                     res2 = (map (outSeries srt ord rr) ms2, None)
                     \<and> lastExecError rr2 = None \<and> lastExecTime rr2 = now2))"
proof -
  let ?rr1 = "rr\<lparr>lastExecTime := now1, lastExecError := Some e\<rparr>"
  have 1: "Exec srt ord q1 now1 rr ctx1 True =
      (([], Some (QueryFailed (Expr rr) e)), ?rr1, [(ctx1, Expr rr)])"
    using assms(1) by (rule Exec_query_failed)
  have "Exec srt ord q2 now2 ?rr1 ctx2 True =
      ((map (outSeries srt ord ?rr1) ms2, None),
       ?rr1\<lparr>lastExecTime := now2, lastExecError := None\<rparr>, [(ctx2, Expr ?rr1)])"
    using assms(2,3) by (intro Exec_success_eq) simp_all
  with 1 show ?thesis by simp
qed

text \<open>
  C10. When the query succeeds with \<open>n\<close> metrics whose keys are pairwise different,
  \<open>Exec\<close> returns \<open>n\<close> series and no error, the \<open>i\<close>-th series made from the \<open>i\<close>-th
  metric: its one sample has the value of the metric and the time
  \<^verbatim>\<open>time.Unix(r.Timestamp, 0)\<close>, the metric's timestamp as whole seconds with no
  nanoseconds. \<open>lastExecError\<close> is nil and \<open>lastExecTime\<close> the time of the call. An
  empty result gives an empty sequence.
\<close>

theorem Exec_success:
  assumes "q ctx (Expr rr) = (ms, None)" and "distinct (map (seriesKey srt ord rr) ms)"
  shows "(case Exec srt ord q now rr ctx True of
            ((tss, err), rr', sent) \<Rightarrow>
              tss = map (outSeries srt ord rr) ms \<and> err = None
              \<and> length tss = length ms
              \<and> (\<forall>i < length ms.
                    Samples (tss ! i) =
                      [\<lparr>Sample.Value = Metric.Value (ms ! i),
                        Sample.Timestamp = \<lparr>sec = Metric.Timestamp (ms ! i), nsec = 0\<rparr>\<rparr>])
              \<and> (ms = [] \<longrightarrow> tss = [])
              \<and> rr' = rr\<lparr>lastExecTime := now, lastExecError := None\<rparr>
              \<and> sent = [(ctx, Expr rr)])"
  using assms by (simp add: Exec_success_eq outSeries_Samples time_Unix_def)

subsection \<open>Facts about the two goroutines\<close>

lemma run_Exec_alone:
  assumes "q ctx (Expr rr) = (q_Metrics p, q_err p)"
  shows "run p [in_Exec, in_Exec, in_Exec, in_Exec, in_Exec] (start rr) =
     Some ((start rr)\<lparr>shared := fst (snd (Exec (library_sort p) (range_order p) q (time_Now p) rr ctx True)),
                      exec_pc := 5\<rparr>)"
  using assms
  by (cases "q_err p")
     (simp_all add: Exec_step_def start_def Exec_def split: prod.splits)

lemma run_RuleAPI_alone:
  "run p [in_RuleAPI, in_RuleAPI] (start rr) =
     Some ((start rr)\<lparr>lastErr := RuleAPI_lastErr (Error_of p) rr, api_pc := 2,
                      returned := Some (RuleAPI (String_of_Type p) (Error_of p) rr)\<rparr>)"
  by (simp add: RuleAPI_step_def start_def RuleAPI_def)

lemma run_RuleAPI_never_blocks:
  "api_pc c < 2 \<Longrightarrow> RuleAPI_step p c \<noteq> None"
  by (simp add: RuleAPI_step_def)

subsection \<open>The scenario, computed\<close>

lemma is_order_rev: "is_order rev"
  by (simp add: is_order_def)

lemma up_count_job_a:
  "toTimeSeries rev up_count job_a t =
     \<lparr>TimeSeries.Labels =
        [\<lparr>Label.Name = ''env'', Label.Value = ''prod''\<rparr>,
         \<lparr>Label.Name = ''__name__'', Label.Value = ''up_count''\<rparr>,
         \<lparr>Label.Name = ''job'', Label.Value = ''a''\<rparr>],
      Samples = [\<lparr>Sample.Value = 1, Sample.Timestamp = t\<rparr>]\<rparr>"
  by (simp add: toTimeSeries_def newTimeSeries_def up_count_def job_a_def)

lemma up_count_job_b:
  "toTimeSeries rev up_count job_b t =
     \<lparr>TimeSeries.Labels =
        [\<lparr>Label.Name = ''env'', Label.Value = ''prod''\<rparr>,
         \<lparr>Label.Name = ''__name__'', Label.Value = ''up_count''\<rparr>,
         \<lparr>Label.Name = ''job'', Label.Value = ''b''\<rparr>],
      Samples = [\<lparr>Sample.Value = 2, Sample.Timestamp = t\<rparr>]\<rparr>"
  by (simp add: toTimeSeries_def newTimeSeries_def up_count_def job_b_def)

lemma up_count_job_a_dev:
  "toTimeSeries rev up_count job_a_dev t =
     \<lparr>TimeSeries.Labels =
        [\<lparr>Label.Name = ''__name__'', Label.Value = ''up_count''\<rparr>,
         \<lparr>Label.Name = ''env'', Label.Value = ''prod''\<rparr>,
         \<lparr>Label.Name = ''job'', Label.Value = ''a''\<rparr>],
      Samples = [\<lparr>Sample.Value = 2, Sample.Timestamp = t\<rparr>]\<rparr>"
  by (simp add: toTimeSeries_def newTimeSeries_def up_count_def job_a_dev_def)

lemma up_count_keys:
  "seriesKey insertion_sort rev up_count job_a = ''__name__=up_count,env=prod,job=a''"
  "seriesKey insertion_sort rev up_count job_b = ''__name__=up_count,env=prod,job=b''"
  "seriesKey insertion_sort rev up_count job_a_dev = ''__name__=up_count,env=prod,job=a''"
  by (simp_all add: seriesKey_def up_count_job_a up_count_job_b up_count_job_a_dev
      stringifyLabels_def insertion_sort_def)

lemma up_count_series:
  "outSeries insertion_sort rev up_count job_a =
     \<lparr>TimeSeries.Labels =
        [\<lparr>Label.Name = ''__name__'', Label.Value = ''up_count''\<rparr>,
         \<lparr>Label.Name = ''env'', Label.Value = ''prod''\<rparr>,
         \<lparr>Label.Name = ''job'', Label.Value = ''a''\<rparr>],
      Samples = [\<lparr>Sample.Value = 1, Sample.Timestamp = \<lparr>sec = 1600000000, nsec = 0\<rparr>\<rparr>]\<rparr>"
  "outSeries insertion_sort rev up_count job_b =
     \<lparr>TimeSeries.Labels =
        [\<lparr>Label.Name = ''__name__'', Label.Value = ''up_count''\<rparr>,
         \<lparr>Label.Name = ''env'', Label.Value = ''prod''\<rparr>,
         \<lparr>Label.Name = ''job'', Label.Value = ''b''\<rparr>],
      Samples = [\<lparr>Sample.Value = 2, Sample.Timestamp = \<lparr>sec = 1600000000, nsec = 0\<rparr>\<rparr>]\<rparr>"
  by (simp_all add: outSeries_def up_count_job_a up_count_job_b
      stringifyLabels_def Let_def insertion_sort_def)
     (simp_all add: time_Unix_def job_a_def job_b_def)

theorem toTimeSeries_labels_witness:
  "is_order rev \<and> distinct (map fst (RecordingRule.Labels up_count))
   \<and> (''env'', ''prod'') \<in> set (RecordingRule.Labels up_count)
   \<and> metricLabels job_a_dev ''env'' = Some ''dev''
   \<and> labelsOf (toTimeSeries rev up_count job_a_dev (time_Unix 1600000000 0)) ''env'' = Some ''prod''
   \<and> \<lparr>Label.Name = ''env'', Label.Value = ''prod''\<rparr>
        \<in> set (TimeSeries.Labels (toTimeSeries rev up_count job_a_dev (time_Unix 1600000000 0)))
   \<and> labelsOf (toTimeSeries rev up_count job_a_dev (time_Unix 1600000000 0)) ''__name__''
        = Some ''up_count''"
proof -
  have d: "distinct (map fst (RecordingRule.Labels up_count))"
    by (simp add: up_count_def)
  have s: "(''env'', ''prod'') \<in> set (RecordingRule.Labels up_count)"
    by (simp add: up_count_def)
  have m: "metricLabels job_a_dev ''env'' = Some ''dev''"
    by (simp add: metricLabels_def job_a_dev_def)
  note t = toTimeSeries_labels[OF is_order_rev d, of job_a_dev "time_Unix 1600000000 0"]
  note eq = t[THEN conjunct2, THEN conjunct2, THEN conjunct1]
  note static = t[THEN conjunct2, THEN conjunct2, THEN conjunct2, THEN conjunct2,
      THEN conjunct1, rule_format, OF s]
  have n: "labelsOf (toTimeSeries rev up_count job_a_dev (time_Unix 1600000000 0))
      ''__name__'' = Some ''up_count''"
    by (subst eq) (simp add: up_count_def)
  from static n is_order_rev d s m show ?thesis by simp
qed

theorem Exec_duplicate_series_witness:
  "(0::nat) < 1 \<and> 1 < length [job_a, job_a_dev]
   \<and> seriesKey insertion_sort rev up_count ([job_a, job_a_dev] ! 0) = seriesKey insertion_sort rev up_count ([job_a, job_a_dev] ! 1)
   \<and> (\<exists>r \<in> set [job_a, job_a_dev].
        Exec insertion_sort rev (\<lambda>ctx expr. ([job_a, job_a_dev], None)) (time_Unix 1600000060 0) up_count () True =
          (([], Some (DuplicateSeries r (seriesKey insertion_sort rev up_count r) errDuplicate)),
           up_count\<lparr>lastExecTime := time_Unix 1600000060 0, lastExecError := Some errDuplicate\<rparr>,
           [((), Expr up_count)])
        \<and> errors_Is (DuplicateSeries r (seriesKey insertion_sort rev up_count r) errDuplicate) errDuplicate)
   \<and> Exec insertion_sort rev (\<lambda>ctx expr. ([job_a, job_a_dev], None)) (time_Unix 1600000060 0) up_count () True =
       (([], Some (DuplicateSeries job_a_dev ''__name__=up_count,env=prod,job=a'' errDuplicate)),
        up_count\<lparr>lastExecTime := time_Unix 1600000060 0, lastExecError := Some errDuplicate\<rparr>,
        [((), Expr up_count)])"
proof -
  let ?q = "\<lambda>(ctx::unit) (expr::string). ([job_a, job_a_dev], None::error option)"
  have h1: "?q () (Expr up_count) = ([job_a, job_a_dev], None)" by simp
  have h2: "(0::nat) < 1" by simp
  have h3: "1 < length [job_a, job_a_dev]" by simp
  have h4: "seriesKey insertion_sort rev up_count ([job_a, job_a_dev] ! 0)
      = seriesKey insertion_sort rev up_count ([job_a, job_a_dev] ! 1)"
    by (simp add: up_count_keys)
  note ex = Exec_duplicate_series[where q = ?q and ctx = "()" and rr = up_count and ord = rev and srt = insertion_sort
      and ms = "[job_a, job_a_dev]" and i = 0 and j = 1 and now = "time_Unix 1600000060 0",
      OF h1 h2 h3 h4]
  have ev: "Exec insertion_sort rev ?q (time_Unix 1600000060 0) up_count () True =
        (([], Some (DuplicateSeries job_a_dev ''__name__=up_count,env=prod,job=a'' errDuplicate)),
         up_count\<lparr>lastExecTime := time_Unix 1600000060 0, lastExecError := Some errDuplicate\<rparr>,
         [((), Expr up_count)])"
    by (simp add: Exec_def Exec_loop_step del: Exec_loop.simps) (simp add: up_count_keys)
  show ?thesis
    by (intro conjI h2 h3 h4 ex ev)
qed

theorem Exec_error_does_not_latch_witness:
  "(\<lambda>ctx expr. ([], Some (Opaque ''timeout''))) () (Expr up_count) = ([], Some (Opaque ''timeout''))
   \<and> (\<lambda>ctx expr. ([job_a, job_b], None)) () (Expr up_count) = ([job_a, job_b], None)
   \<and> distinct (map (seriesKey insertion_sort rev up_count) [job_a, job_b])
   \<and> (case Exec insertion_sort rev (\<lambda>ctx expr. ([], Some (Opaque ''timeout''))) (time_Unix 1600000000 0)
             up_count () True of
         (res1, rr1, sent1) \<Rightarrow>
           res1 = ([], Some (QueryFailed (Expr up_count) (Opaque ''timeout'')))
           \<and> lastExecError rr1 = Some (Opaque ''timeout'')
           \<and> (case Exec insertion_sort rev (\<lambda>ctx expr. ([job_a, job_b], None)) (time_Unix 1600000060 0)
                     rr1 () True of
                 (res2, rr2, sent2) \<Rightarrow>
                   res2 = (map (outSeries insertion_sort rev up_count) [job_a, job_b], None)
                   \<and> lastExecError rr2 = None \<and> lastExecTime rr2 = time_Unix 1600000060 0))"
proof -
  let ?q1 = "\<lambda>(ctx::unit) (expr::string). ([]::Metric list, Some (Opaque ''timeout''))"
  let ?q2 = "\<lambda>(ctx::unit) (expr::string). ([job_a, job_b], None::error option)"
  have h1: "?q1 () (Expr up_count) = ([], Some (Opaque ''timeout''))" by simp
  have h2: "?q2 () (Expr up_count) = ([job_a, job_b], None)" by simp
  have h3: "distinct (map (seriesKey insertion_sort rev up_count) [job_a, job_b])"
    by (simp add: up_count_keys)
  from Exec_error_does_not_latch[where ?q1.0 = ?q1 and ?ctx1.0 = "()" and rr = up_count
      and ?ms1.0 = "[]" and e = "Opaque ''timeout''" and ?q2.0 = ?q2 and ?ctx2.0 = "()"
      and ?ms2.0 = "[job_a, job_b]" and ord = rev and srt = insertion_sort
      and ?now1.0 = "time_Unix 1600000000 0" and ?now2.0 = "time_Unix 1600000060 0",
      OF h1 h2 h3] h1 h2 h3
  show ?thesis by simp
qed

theorem Exec_success_witness:
  "(\<lambda>ctx expr. ([job_a, job_b], None)) () (Expr up_count) = ([job_a, job_b], None)
   \<and> distinct (map (seriesKey insertion_sort rev up_count) [job_a, job_b])
   \<and> Exec insertion_sort rev (\<lambda>ctx expr. ([job_a, job_b], None)) (time_Unix 1600000060 0) up_count () True =
       (([\<lparr>TimeSeries.Labels =
             [\<lparr>Label.Name = ''__name__'', Label.Value = ''up_count''\<rparr>,
              \<lparr>Label.Name = ''env'', Label.Value = ''prod''\<rparr>,
              \<lparr>Label.Name = ''job'', Label.Value = ''a''\<rparr>],
           Samples = [\<lparr>Sample.Value = 1, Sample.Timestamp = \<lparr>sec = 1600000000, nsec = 0\<rparr>\<rparr>]\<rparr>,
          \<lparr>TimeSeries.Labels =
             [\<lparr>Label.Name = ''__name__'', Label.Value = ''up_count''\<rparr>,
              \<lparr>Label.Name = ''env'', Label.Value = ''prod''\<rparr>,
              \<lparr>Label.Name = ''job'', Label.Value = ''b''\<rparr>],
           Samples = [\<lparr>Sample.Value = 2, Sample.Timestamp = \<lparr>sec = 1600000000, nsec = 0\<rparr>\<rparr>]\<rparr>],
         None),
        up_count\<lparr>lastExecTime := time_Unix 1600000060 0, lastExecError := None\<rparr>,
        [((), Expr up_count)])"
proof -
  let ?q = "\<lambda>(ctx::unit) (expr::string). ([job_a, job_b], None::error option)"
  have h1: "?q () (Expr up_count) = ([job_a, job_b], None)" by simp
  have h2: "distinct (map (seriesKey insertion_sort rev up_count) [job_a, job_b])"
    by (simp add: up_count_keys)
  from Exec_success[where q = ?q and ctx = "()" and rr = up_count and ord = rev and srt = insertion_sort
      and ms = "[job_a, job_b]" and now = "time_Unix 1600000060 0", OF h1 h2] h1 h2
  show ?thesis by (auto simp: up_count_series split: prod.splits)
qed

text \<open>
  C6. \<open>UpdateWith\<close> with a rule that is not a recording rule (the nil interface or
  another implementation) returns the wrong-type error and the receiver as it was.
  With a recording rule it returns no error and a receiver that differs in \<open>Expr\<close>
  and \<open>Labels\<close> only, which are those of the argument: \<open>RuleID\<close>, \<open>GroupID\<close>,
  \<open>Name\<close>, \<open>Type\<close>, \<open>lastExecTime\<close> and \<open>lastExecError\<close> are untouched, and the
  record of \<open>RuleAPI\<close> after the call is the one before it with the new
  \<open>Expression\<close> and \<open>Labels\<close>.
\<close>

theorem UpdateWith_frame:
  "UpdateWith rr nil_Rule = Inr (Some WrongType, rr)
   \<and> UpdateWith rr (Other_Rule x) = Inr (Some WrongType, rr)
   \<and> UpdateWith rr (RecordingRule_ptr (Some nr)) =
       Inr (None, rr\<lparr>Expr := Expr nr, RecordingRule.Labels := RecordingRule.Labels nr\<rparr>)
   \<and> (case UpdateWith rr (RecordingRule_ptr (Some nr)) of
         Inl p \<Rightarrow> False
       | Inr (e, rr') \<Rightarrow>
           e = None
           \<and> RuleID rr' = RuleID rr \<and> RecordingRule.GroupID rr' = RecordingRule.GroupID rr
           \<and> RecordingRule.Name rr' = RecordingRule.Name rr
           \<and> RecordingRule.Type rr' = RecordingRule.Type rr
           \<and> lastExecTime rr' = lastExecTime rr \<and> lastExecError rr' = lastExecError rr
           \<and> Expr rr' = Expr nr \<and> RecordingRule.Labels rr' = RecordingRule.Labels nr
           \<and> RuleAPI Type_String Error rr' =
               (RuleAPI Type_String Error rr)
                 \<lparr>Expression := Expr nr, APIRecordingRule.Labels := RecordingRule.Labels nr\<rparr>)"
  by (simp add: UpdateWith_def RuleAPI_def RuleAPI_record_def RuleAPI_lastErr_def)

text \<open>
  C8. \<open>RuleAPI\<close> does not lock \<^verbatim>\<open>rr.mu\<close>. With \<open>lastExecError\<close> holding the error
  of a first cycle, a call of \<open>RuleAPI\<close> computes \<^verbatim>\<open>lastErr\<close>; a second cycle of
  \<open>Exec\<close>, whose query succeeds, then locks, writes both status fields and unlocks;
  \<open>RuleAPI\<close> then builds its record. The record pairs the error of the first cycle
  with the time of the second, a pair that the rule never held.
\<close>

theorem RuleAPI_torn_snapshot:
  "run \<lparr>library_sort = insertion_sort, range_order = rev, time_Now = time_Unix 1600000060 0,
        q_Metrics = [job_a, job_b], q_err = None,
        String_of_Type = (\<lambda>t. t),
        Error_of = (\<lambda>e. case e of Opaque m \<Rightarrow> m | _ \<Rightarrow> ''other'')\<rparr>
     [in_RuleAPI, in_Exec, in_Exec, in_Exec, in_Exec, in_Exec, in_RuleAPI]
     (start (up_count\<lparr>lastExecTime := time_Unix 1600000000 0,
                      lastExecError := Some (Opaque ''timeout'')\<rparr>))
   = Some
      \<lparr>shared = up_count\<lparr>lastExecTime := time_Unix 1600000060 0, lastExecError := None\<rparr>,
       mu = False, exec_pc = 5, api_pc = 2, lastErr = ''timeout'',
       returned = Some
         \<lparr>ID = ''7'', GroupID = ''3'', Name = ''up_count'', Type = ''prometheus'',
          Expression = ''sum(up) by (job)'', LastError = ''timeout'',
          LastExec = time_Unix 1600000060 0, Labels = [(''env'', ''prod'')]\<rparr>\<rparr>"
proof -
  have d: "distinct (map (seriesKey insertion_sort rev up_count) [job_a, job_b])"
    by (simp add: up_count_keys)
  have l: "Exec_loop insertion_sort rev
      (up_count\<lparr>lastExecTime := time_Unix 1600000060 0, lastExecError := None\<rparr>)
      [job_a, job_b] {} []
    = (([] @ map (outSeries insertion_sort rev
          (up_count\<lparr>lastExecTime := time_Unix 1600000060 0, lastExecError := None\<rparr>))
          [job_a, job_b], None),
       up_count\<lparr>lastExecTime := time_Unix 1600000060 0, lastExecError := None\<rparr>)"
    by (rule Exec_loop_distinct) (simp_all add: up_count_keys)
  have s7: "Sprintf_d 7 = ''7''" and s3: "Sprintf_d 3 = ''3''"
    by code_simp+
  show ?thesis
    by (simp add: start_def RuleAPI_step_def Exec_step_def RuleAPI_lastErr_def
        RuleAPI_record_def l del: Exec_loop.simps)
       (simp add: up_count_def s7 s3)
qed

end
